theory Spec2Isabelle
  imports Main "HOL-Library.AList"
begin

section \<open>Dates, as \<open>grigri.dates.range\<close> uses them\<close>

text \<open>
  \<open>range.py\<close> works on Python \<open>datetime\<close> values. It adds whole days to them
  (\<open>anchor_date + timedelta(k)\<close>), compares them (\<open>anchor_date > swing_date\<close>) and hands
  them to \<open>pd.date_range(..., normalize=True)\<close>. CPython does day arithmetic on the
  proleptic Gregorian ordinal of the date (day 1 is 0001-01-01) and leaves the time of
  day alone, and it compares two datetimes field by field, which is the order of the
  pairs (ordinal, time of day). A datetime is therefore kept as its ordinal and its time
  of day in microseconds since midnight.
\<close>

record datetime =
  ordinal :: int
  tod :: nat

text \<open>The exceptions that can leave the two builders.\<close>

datatype error =
    AssertionError
  | OverflowError
  | TypeError
  | OutOfBoundsDatetime
  | InvalidFrequency

definition bind_err :: "error + 'a \<Rightarrow> ('a \<Rightarrow> error + 'b) \<Rightarrow> error + 'b" where
  "bind_err r f = (case r of Inl e \<Rightarrow> Inl e | Inr v \<Rightarrow> f v)"

subsection \<open>The calendar of CPython's \<open>datetime\<close> module\<close>

definition is_leap :: "int \<Rightarrow> bool" where
  "is_leap year = (year mod 4 = 0 \<and> (year mod 100 \<noteq> 0 \<or> year mod 400 = 0))"

definition days_before_year :: "int \<Rightarrow> int" where
  "days_before_year year =
     (let y = year - 1 in y * 365 + y div 4 - y div 100 + y div 400)"

text \<open>
  The table of month lengths is indexed by the month number, with a placeholder at
  index 0, as in CPython; the months that reach it are always in 1 .. 12.
\<close>

definition DAYS_IN_MONTH :: "int list" where
  "DAYS_IN_MONTH = [- 1, 31, 28, 31, 30, 31, 30, 31, 31, 30, 31, 30, 31]"

definition days_in_month :: "int \<Rightarrow> int \<Rightarrow> int" where
  "days_in_month year month =
     (if month = 2 \<and> is_leap year then 29 else DAYS_IN_MONTH ! nat month)"

text \<open>The number of days of a common year before the first of a month.\<close>

definition DAYS_BEFORE_MONTH :: "int \<Rightarrow> int" where
  "DAYS_BEFORE_MONTH month = sum_list (take (nat (month - 1)) (tl DAYS_IN_MONTH))"

definition days_before_month :: "int \<Rightarrow> int \<Rightarrow> int" where
  "days_before_month year month =
     DAYS_BEFORE_MONTH month + (if month > 2 \<and> is_leap year then 1 else 0)"

definition ymd2ord :: "int \<Rightarrow> int \<Rightarrow> int \<Rightarrow> int" where
  "ymd2ord year month day = days_before_year year + days_before_month year month + day"

text \<open>The ordinal of 9999-12-31, the last day a \<open>datetime\<close> can hold.\<close>

definition MAXORDINAL :: int where
  "MAXORDINAL = 3652059"

text \<open>\<open>datetime(year, month, day)\<close>: midnight of a calendar day.\<close>

definition date_ymd :: "int \<Rightarrow> int \<Rightarrow> int \<Rightarrow> datetime" where
  "date_ymd year month day = \<lparr>ordinal = ymd2ord year month day, tod = 0\<rparr>"

text \<open>
  \<open>datetime(year, month, day, hour, minute, second, microsecond)\<close>.
\<close>

definition datetime_ymd_hms :: "int \<Rightarrow> int \<Rightarrow> int \<Rightarrow> nat \<Rightarrow> nat \<Rightarrow> nat \<Rightarrow> nat \<Rightarrow> datetime" where
  "datetime_ymd_hms year month day h mi s us =
     \<lparr>ordinal = ymd2ord year month day, tod = ((h * 60 + mi) * 60 + s) * 1000000 + us\<rparr>"

text \<open>
  A value that a Python \<open>datetime\<close> can hold: 0001-01-01 to 9999-12-31, with a time of
  day below 24 hours.
\<close>

definition representable :: "int \<Rightarrow> bool" where
  "representable n = (0 < n \<and> n \<le> MAXORDINAL)"

definition valid_datetime :: "datetime \<Rightarrow> bool" where
  "valid_datetime a = (representable (ordinal a) \<and> tod a < 86400000000)"

subsection \<open>The operations of \<open>datetime\<close> that \<open>range.py\<close> calls\<close>

text \<open>
  \<open>timedelta(days)\<close> raises \<open>OverflowError\<close> beyond 999999999 days in either
  direction.
\<close>

definition timedelta :: "int \<Rightarrow> error + int" where
  "timedelta days = (if \<bar>days\<bar> > 999999999 then Inl OverflowError else Inr days)"

text \<open>
  \<open>datetime + timedelta\<close>: the ordinal moves, the time of day stays, and a result
  outside 0001-01-01 .. 9999-12-31 raises \<open>OverflowError\<close>.
\<close>

definition dt_add :: "datetime \<Rightarrow> int \<Rightarrow> error + datetime" where
  "dt_add a days =
     (let n = ordinal a + days
      in if 0 < n \<and> n \<le> MAXORDINAL then Inr (a\<lparr>ordinal := n\<rparr>) else Inl OverflowError)"

text \<open>\<open>a > b\<close> on datetimes.\<close>

definition dt_greater :: "datetime \<Rightarrow> datetime \<Rightarrow> bool" where
  "dt_greater a b = (ordinal a > ordinal b \<or> (ordinal a = ordinal b \<and> tod a > tod b))"

definition dt_le :: "datetime \<Rightarrow> datetime \<Rightarrow> bool" where
  "dt_le a b = (\<not> dt_greater a b)"

text \<open>Midnight of the calendar day of a datetime.\<close>

definition normalize_dt :: "datetime \<Rightarrow> datetime" where
  "normalize_dt a = a\<lparr>tod := 0\<rparr>"

subsection \<open>\<open>pd.date_range(start, end, normalize=True)\<close>\<close>

text \<open>
  pandas is a library, not part of the repository. Lines 56 and 77 ask it for a
  \<open>DatetimeIndex\<close>, whose entries are nanosecond timestamps: \<open>Timestamp.min\<close> is
  1677-09-21 00:12:43.145224193 and \<open>Timestamp.max\<close> is 2262-04-11 23:47:16.854775807. A
  datetime has whole microseconds, so the first and the last datetime that are
  timestamps are the two below; converting any other one raises
  \<open>OutOfBoundsDatetime\<close>.
\<close>

definition TIMESTAMP_MIN :: datetime where
  "TIMESTAMP_MIN = datetime_ymd_hms 1677 9 21 0 12 43 145225"

definition TIMESTAMP_MAX :: datetime where
  "TIMESTAMP_MAX = datetime_ymd_hms 2262 4 11 23 47 16 854775"

definition to_timestamp :: "datetime \<Rightarrow> error + datetime" where
  "to_timestamp t =
     (if dt_greater TIMESTAMP_MIN t \<or> dt_greater t TIMESTAMP_MAX then Inl OutOfBoundsDatetime
      else Inr t)"

text \<open>The midnights of the days \<open>i\<close> to \<open>j\<close>, both included; none when \<open>j < i\<close>.\<close>

definition midnights :: "int \<Rightarrow> int \<Rightarrow> datetime list" where
  "midnights i j = map (\<lambda>k. \<lparr>ordinal = k, tod = 0\<rparr>) [i..j]"

text \<open>
  \<open>date_range\<close> with the default daily frequency and \<open>normalize=True\<close> converts both
  bounds to timestamps, moves them to midnight, and returns every midnight from the
  first to the second, both included; it is empty when the second bound is an earlier
  day than the first. The midnights are timestamps too: on 1677-09-21 midnight lies
  before \<open>Timestamp.min\<close>, so no bound on that day can be normalized, and the model
  raises there as it does for a bound that cannot be converted.
\<close>

definition pd_date_range :: "datetime \<Rightarrow> datetime \<Rightarrow> error + datetime list" where
  "pd_date_range start_date end_date =
     bind_err (to_timestamp start_date) (\<lambda>start_ts.
     bind_err (to_timestamp end_date) (\<lambda>end_ts.
     bind_err (to_timestamp (normalize_dt start_ts)) (\<lambda>start_ts.
     bind_err (to_timestamp (normalize_dt end_ts)) (\<lambda>end_ts.
     Inr (midnights (ordinal start_ts) (ordinal end_ts))))))"

text \<open>
  The bounds that \<open>pd.date_range\<close> accepts: the datetime and midnight of its day are
  both timestamps, that is, its day is 1677-09-22 or later and the datetime itself is
  not after 2262-04-11 23:47:16.854775.
\<close>

definition pd_in_bounds :: "datetime \<Rightarrow> bool" where
  "pd_in_bounds t =
     (\<not> dt_greater TIMESTAMP_MIN (normalize_dt t) \<and> \<not> dt_greater t TIMESTAMP_MAX)"

section \<open>The day-span builder\<close>

text \<open>
  \<open>day_range(num_days, anchor_date=None, inclusive=True)\<close>. The first argument of the
  model is the reading of the wall clock, which \<open>datetime.now()\<close> returns when no
  anchor is given.
\<close>

definition day_range :: "datetime \<Rightarrow> int \<Rightarrow> datetime option \<Rightarrow> bool \<Rightarrow> error + datetime list" where
  "day_range now num_days anchor_date inclusive =
     (if num_days = 0 then Inl AssertionError
      else
        let anchor_date = (case anchor_date of None \<Rightarrow> now | Some a \<Rightarrow> a);
            shift = (if num_days > 0 then 1 else - 1)
        in
          bind_err (timedelta (num_days - shift)) (\<lambda>td.
          bind_err (dt_add anchor_date td) (\<lambda>swing_date.
          bind_err
            (if \<not> inclusive then
               bind_err (timedelta shift) (\<lambda>ts.
               bind_err (dt_add anchor_date ts) (\<lambda>anchor_date'.
               bind_err (timedelta shift) (\<lambda>ts'.
               bind_err (dt_add swing_date ts') (\<lambda>swing_date'.
               Inr (anchor_date', swing_date')))))
             else Inr (anchor_date, swing_date))
            (\<lambda>(anchor_date, swing_date).
               if dt_greater anchor_date swing_date
               then pd_date_range swing_date anchor_date
               else pd_date_range anchor_date swing_date))))"

text \<open>
  What the claims say of a result: a run of midnights, each one day after the one
  before it.
\<close>

fun daily_consecutive :: "datetime list \<Rightarrow> bool" where
  "daily_consecutive [] = True"
| "daily_consecutive [x] = (tod x = 0)"
| "daily_consecutive (x # y # zs) =
     (tod x = 0 \<and> ordinal y = ordinal x + 1 \<and> daily_consecutive (y # zs))"

section \<open>The period-range builder\<close>

text \<open>
  \<open>first_of\<close> and \<open>end_of\<close> come from \<open>grigri.dates.scalar\<close>. \<open>date_range\<close> is
  modelled over any pair of such resolvers: each takes the date and the frequency code
  and returns a date or raises.
\<close>

type_synonym resolver = "datetime \<Rightarrow> string \<Rightarrow> error + datetime"

text \<open>
  \<open>date_range(dt=None, freq='m', full_range=True)\<close>, with the parameters bound. The
  clock reading comes after the two resolvers.
\<close>

definition date_range ::
  "resolver \<Rightarrow> resolver \<Rightarrow> datetime \<Rightarrow> datetime option \<Rightarrow> string \<Rightarrow> bool
     \<Rightarrow> error + datetime list" where
  "date_range first_of end_of now dt freq full_range =
     (let dt = (case dt of None \<Rightarrow> now | Some d \<Rightarrow> d)
      in
        bind_err (first_of dt freq) (\<lambda>start_date.
        bind_err (if full_range then end_of dt freq else Inr dt) (\<lambda>end_date.
        pd_date_range start_date end_date)))"

subsection \<open>Calling \<open>date_range\<close>, and \<open>functools.partial\<close>\<close>

text \<open>
  The four wrappers are \<open>partial(date_range, freq=...)\<close>: what they compute depends on
  how Python binds positional and keyword arguments to the parameters of
  \<open>date_range\<close>. A call carries a list of positional values and a dictionary of keyword
  values.
\<close>

datatype pyval = PNone | PBool bool | PStr string | PDatetime datetime

type_synonym kwargs = "(string \<times> pyval) list"

type_synonym pyfun = "pyval list \<Rightarrow> kwargs \<Rightarrow> error + datetime list"

text \<open>
  \<open>partial(func, *args, **keywords)\<close> returns a callable that calls \<open>func\<close> with the
  stored positional values before the new ones, and with the stored keywords updated by
  the new ones (\<open>{**self.keywords, **keywords}\<close>).
\<close>

definition partial :: "pyfun \<Rightarrow> pyval list \<Rightarrow> kwargs \<Rightarrow> pyfun" where
  "partial func args keywords =
     (\<lambda>fargs fkeywords. func (args @ fargs) (AList.merge keywords fkeywords))"

definition PARAMS :: "string list" where
  "PARAMS = [''dt'', ''freq'', ''full_range'']"

text \<open>
  The value a parameter receives: the positional value at its index when there is one,
  else the keyword value of its name, else its default.
\<close>

definition argument :: "pyval list \<Rightarrow> kwargs \<Rightarrow> nat \<Rightarrow> pyval \<Rightarrow> pyval" where
  "argument args keywords i dflt =
     (if i < length args then args ! i
      else (case map_of keywords (PARAMS ! i) of Some v \<Rightarrow> v | None \<Rightarrow> dflt))"

text \<open>Python's truth value of an object, as \<open>if full_range\<close> takes it.\<close>

fun truthy :: "pyval \<Rightarrow> bool" where
  "truthy PNone = False"
| "truthy (PBool b) = b"
| "truthy (PStr s) = (s \<noteq> [])"
| "truthy (PDatetime d) = True"

text \<open>
  A call \<open>date_range(*args, **keywords)\<close>. Python raises \<open>TypeError\<close> for more than
  three positional values, for a keyword that is not a parameter, and for a parameter
  that receives both a positional and a keyword value. The body is modelled for the
  documented types of its arguments, a datetime or \<open>None\<close> for \<open>dt\<close> and a string for
  \<open>freq\<close>; on other values the model stops with \<open>TypeError\<close>.
\<close>

definition call_date_range :: "resolver \<Rightarrow> resolver \<Rightarrow> datetime \<Rightarrow> pyfun" where
  "call_date_range first_of end_of now args keywords =
     (if length args > length PARAMS then Inl TypeError
      else if list_ex (\<lambda>(k, v). k \<notin> set PARAMS) keywords then Inl TypeError
      else if list_ex (\<lambda>(k, v). k \<in> set (take (length args) PARAMS)) keywords
        then Inl TypeError
      else
        let dt = argument args keywords 0 PNone;
            freq = argument args keywords 1 (PStr ''m'');
            full_range = argument args keywords 2 (PBool True)
        in (case (dt, freq) of
              (PNone, PStr f) \<Rightarrow> date_range first_of end_of now None f (truthy full_range)
            | (PDatetime d, PStr f) \<Rightarrow>
                date_range first_of end_of now (Some d) f (truthy full_range)
            | _ \<Rightarrow> Inl TypeError))"

section \<open>The frequency-bound wrappers\<close>

definition week_range :: "resolver \<Rightarrow> resolver \<Rightarrow> datetime \<Rightarrow> pyfun" where
  "week_range first_of end_of now =
     partial (call_date_range first_of end_of now) [] [(''freq'', PStr ''w'')]"




section \<open>The period boundary resolver\<close>

subsection \<open>From an ordinal back to year, month and day\<close>

text \<open>
  The fields \<open>year\<close>, \<open>month\<close> and \<open>day\<close> of a datetime, computed from its ordinal as
  CPython's \<open>_ord2ymd\<close> does: 400-year, 100-year and 4-year cycles, then single years,
  then the month estimated as \<open>(n + 50) >> 5\<close> and corrected.
\<close>

definition DI400Y :: int where
  "DI400Y = days_before_year 401"

definition DI100Y :: int where
  "DI100Y = days_before_year 101"

definition DI4Y :: int where
  "DI4Y = days_before_year 5"

text \<open>The second half of \<open>_ord2ymd\<close>: month and day from the day of the year, counted from 0.\<close>

definition month_day :: "bool \<Rightarrow> int \<Rightarrow> int \<times> int" where
  "month_day leapyear n =
     (let month = (n + 50) div 32;
          preceding = DAYS_BEFORE_MONTH month + (if month > 2 \<and> leapyear then 1 else 0)
      in if preceding > n
         then
           let month = month - 1;
               preceding = preceding
                 - (DAYS_IN_MONTH ! nat month + (if month = 2 \<and> leapyear then 1 else 0))
           in (month, n - preceding + 1)
         else (month, n - preceding + 1))"

definition ord2ymd :: "int \<Rightarrow> int \<times> int \<times> int" where
  "ord2ymd ordn =
     (let n = ordn - 1;
          n400 = n div DI400Y; n = n mod DI400Y;
          year = n400 * 400 + 1;
          n100 = n div DI100Y; n = n mod DI100Y;
          n4 = n div DI4Y; n = n mod DI4Y;
          n1 = n div 365; n = n mod 365;
          year = year + n100 * 100 + n4 * 4 + n1
      in if n1 = 4 \<or> n100 = 4 then (year - 1, 12, 31)
         else
           let leapyear = (n1 = 3 \<and> (n4 \<noteq> 24 \<or> n100 = 3));
               (month, day) = month_day leapyear n
           in (year, month, day))"

text \<open>\<open>weekday()\<close>: Monday is 0, Sunday is 6.\<close>

definition weekday :: "datetime \<Rightarrow> int" where
  "weekday dt = (ordinal dt + 6) mod 7"

subsection \<open>\<open>first_of\<close> and \<open>end_of\<close>\<close>

text \<open>
  Modelled from the spec: \<open>first_of\<close> and \<open>end_of\<close> of \<open>grigri.dates.scalar\<close>, which
  \<open>range.py\<close> imports and which is not among the sources. The spec gives their
  contract: for a date and a frequency code in day, week, month, quarter, year, the
  first and the last calendar date of the period of that frequency that contains the
  date; an unrecognized code raises. The codes are the single letters that \<open>range.py\<close>
  passes, with \<open>'d'\<close> for the day. A calendar date is returned as midnight of its day.
  Weeks run from Monday to Sunday, as \<open>weekday()\<close> counts them; the spec does not say
  where a week starts, and nothing proved below depends on it. A week boundary is
  reached by day arithmetic and is a date only inside 0001-01-01 .. 9999-12-31: the week
  of 9999-12-27 to 9999-12-31 has no last day, and \<open>end_of\<close> raises there as
  \<open>datetime + timedelta\<close> does. The month, quarter and year of a date lie inside its
  own year.
\<close>

definition first_of :: resolver where
  "first_of dt freq =
     (let (year, month, day) = ord2ymd (ordinal dt)
      in if freq = ''d'' then Inr (date_ymd year month day)
         else if freq = ''w'' then
           bind_err (dt_add dt (- weekday dt)) (\<lambda>monday. Inr (normalize_dt monday))
         else if freq = ''m'' then Inr (date_ymd year month 1)
         else if freq = ''q'' then Inr (date_ymd year (3 * ((month - 1) div 3) + 1) 1)
         else if freq = ''y'' then Inr (date_ymd year 1 1)
         else Inl InvalidFrequency)"

definition end_of :: resolver where
  "end_of dt freq =
     (let (year, month, day) = ord2ymd (ordinal dt)
      in if freq = ''d'' then Inr (date_ymd year month day)
         else if freq = ''w'' then
           bind_err (dt_add dt (6 - weekday dt)) (\<lambda>sunday. Inr (normalize_dt sunday))
         else if freq = ''m'' then Inr (date_ymd year month (days_in_month year month))
         else if freq = ''q'' then
           (let last_month = 3 * ((month - 1) div 3) + 3
            in Inr (date_ymd year last_month (days_in_month year last_month)))
         else if freq = ''y'' then Inr (date_ymd year 12 31)
         else Inl InvalidFrequency)"

text \<open>The frequency codes that the resolver accepts.\<close>

definition FREQUENCIES :: "string list" where
  "FREQUENCIES = [''d'', ''w'', ''m'', ''q'', ''y'']"

section \<open>Properties of the day-span builder\<close>

lemma bind_err_Inr [simp]: "bind_err (Inr v) f = f v"
  by (simp add: bind_err_def)

lemma bind_err_Inl [simp]: "bind_err (Inl e) f = Inl e"
  by (simp add: bind_err_def)

text \<open>
  C2: with \<open>num_days = 0\<close> the assertion on the first line of \<open>day_range\<close> fails, for
  every anchor (given or read from the clock) and either value of \<open>inclusive\<close>; no range
  is returned.
\<close>

theorem day_range_zero_fails:
  "day_range now 0 anchor_date inclusive = Inl AssertionError"
  by (simp add: day_range_def)

subsection \<open>Runs of midnights\<close>

lemma daily_consecutive_midnights: "daily_consecutive (midnights i j)"
proof (induction i j rule: upto.induct)
  case (1 i j)
  show ?case
  proof (cases "i \<le> j")
    case False
    then show ?thesis by (simp add: midnights_def)
  next
    case True
    show ?thesis
    proof (cases "i + 1 \<le> j")
      case False
      with True have "j = i" by simp
      then show ?thesis by (simp add: midnights_def)
    next
      case le: True
      have "[i..j] = i # (i + 1) # [i + 1 + 1..j]"
        using True le by (simp add: upto_rec1)
      moreover have "daily_consecutive (midnights (i + 1) j)"
        using "1.IH" True by simp
      ultimately show ?thesis
        using le by (simp add: midnights_def upto_rec1 [of "i + 1" j])
    qed
  qed
qed

lemma length_midnights: "length (midnights i j) = nat (j - i + 1)"
  by (simp add: midnights_def)

lemma set_midnights:
  "x \<in> set (midnights i j) \<longleftrightarrow> tod x = 0 \<and> i \<le> ordinal x \<and> ordinal x \<le> j"
  by (cases x) (auto simp: midnights_def)

lemma strictly_ascending_midnights:
  "sorted_wrt (\<lambda>x y. dt_greater y x) (midnights i j)"
proof -
  have "sorted_wrt (<) [i..j]"
    using sorted_upto [of i j] distinct_upto [of i j] strict_sorted_iff by blast
  then show ?thesis
    by (simp add: midnights_def sorted_wrt_map dt_greater_def)
qed

lemma midnights_nonempty:
  assumes "i \<le> j"
  shows "midnights i j \<noteq> []"
    and "hd (midnights i j) = \<lparr>ordinal = i, tod = 0\<rparr>"
    and "last (midnights i j) = \<lparr>ordinal = j, tod = 0\<rparr>"
proof -
  have front: "[i..j] = i # [i + 1..j]"
    using assms by (simp add: upto_rec1)
  have rear: "[i..j] = [i..j - 1] @ [j]"
    using assms by (simp add: upto_rec2)
  show "midnights i j \<noteq> []"
    using assms by (simp add: midnights_def)
  show "hd (midnights i j) = \<lparr>ordinal = i, tod = 0\<rparr>"
    by (simp add: midnights_def front)
  show "last (midnights i j) = \<lparr>ordinal = j, tod = 0\<rparr>"
    by (simp add: midnights_def rear)
qed

subsection \<open>What \<open>pd.date_range\<close> accepts and returns\<close>

lemma timestamp_bounds:
  "TIMESTAMP_MIN = \<lparr>ordinal = 612411, tod = 763145225\<rparr>"
  "TIMESTAMP_MAX = \<lparr>ordinal = 825914, tod = 85636854775\<rparr>"
  by (simp_all add: TIMESTAMP_MIN_def TIMESTAMP_MAX_def datetime_ymd_hms_def ymd2ord_def
      days_before_year_def days_before_month_def DAYS_BEFORE_MONTH_def DAYS_IN_MONTH_def
      is_leap_def)

lemma pd_in_bounds_iff:
  "pd_in_bounds t \<longleftrightarrow>
     612411 < ordinal t
     \<and> (ordinal t < 825914 \<or> (ordinal t = 825914 \<and> tod t \<le> 85636854775))"
  by (auto simp: pd_in_bounds_def timestamp_bounds dt_greater_def normalize_dt_def)

lemma to_timestamp_iff:
  "to_timestamp t = Inr u \<longleftrightarrow>
     u = t \<and> (612411 < ordinal t \<or> (ordinal t = 612411 \<and> 763145225 \<le> tod t))
     \<and> (ordinal t < 825914 \<or> (ordinal t = 825914 \<and> tod t \<le> 85636854775))"
  by (auto simp: to_timestamp_def timestamp_bounds dt_greater_def)

lemma pd_date_range_iff:
  "pd_date_range s e = Inr xs \<longleftrightarrow>
     pd_in_bounds s \<and> pd_in_bounds e \<and> xs = midnights (ordinal s) (ordinal e)"
proof -
  have "pd_date_range s e = Inr xs \<longleftrightarrow>
      (\<exists>s1 e1 s2 e2. to_timestamp s = Inr s1 \<and> to_timestamp e = Inr e1
         \<and> to_timestamp (normalize_dt s1) = Inr s2 \<and> to_timestamp (normalize_dt e1) = Inr e2
         \<and> xs = midnights (ordinal s2) (ordinal e2))"
    by (auto simp: pd_date_range_def bind_err_def split: sum.splits)
  then show ?thesis
    by (auto simp: to_timestamp_iff pd_in_bounds_iff normalize_dt_def)
qed

lemma pd_date_range_in_bounds:
  assumes "pd_in_bounds s" and "pd_in_bounds e"
  shows "pd_date_range s e = Inr (midnights (ordinal s) (ordinal e))"
  using assms by (simp add: pd_date_range_iff)

lemma pd_in_bounds_representable:
  assumes "pd_in_bounds t"
  shows "0 < ordinal t" and "ordinal t \<le> MAXORDINAL"
  using assms by (auto simp: pd_in_bounds_iff MAXORDINAL_def)

lemma pd_in_bounds_midnight:
  assumes "pd_in_bounds t"
  shows "pd_in_bounds (normalize_dt t)"
  using assms by (auto simp: pd_in_bounds_iff normalize_dt_def)

subsection \<open>The result of \<open>day_range\<close> inside the bounds\<close>

lemma day_range_inclusive_forward:
  assumes "0 < n" and "pd_in_bounds a"
    and "pd_in_bounds (a\<lparr>ordinal := ordinal a + (n - 1)\<rparr>)"
  shows "day_range now n (Some a) True
           = Inr (midnights (ordinal a) (ordinal a + (n - 1)))"
proof -
  have "612411 < ordinal a" and "ordinal a + (n - 1) \<le> 825914"
    using assms(2,3) by (auto simp: pd_in_bounds_iff)
  then show ?thesis
    using assms(1) pd_date_range_in_bounds [OF assms(2,3)]
    by (simp add: day_range_def timedelta_def dt_add_def dt_greater_def MAXORDINAL_def
        Let_def)
qed

lemma day_range_inclusive_backward:
  assumes "n < 0" and "pd_in_bounds a"
    and "pd_in_bounds (a\<lparr>ordinal := ordinal a + (n + 1)\<rparr>)"
  shows "day_range now n (Some a) True
           = Inr (midnights (ordinal a + (n + 1)) (ordinal a))"
proof -
  have bounds: "612411 < ordinal a + (n + 1)" "ordinal a \<le> 825914"
    using assms(2,3) by (auto simp: pd_in_bounds_iff)
  show ?thesis
  proof (cases "n = - 1")
    case True
    then show ?thesis
      using bounds pd_date_range_in_bounds [OF assms(2,2)]
      by (simp add: day_range_def timedelta_def dt_add_def dt_greater_def MAXORDINAL_def
          Let_def)
  next
    case False
    with assms(1) have "n + 1 < 0" by simp
    then show ?thesis
      using bounds pd_date_range_in_bounds [OF assms(3,2)]
      by (simp add: day_range_def timedelta_def dt_add_def dt_greater_def MAXORDINAL_def
          Let_def)
  qed
qed

lemma day_range_exclusive_forward:
  assumes "0 < n" and "pd_in_bounds (a\<lparr>ordinal := ordinal a + 1\<rparr>)"
    and "pd_in_bounds (a\<lparr>ordinal := ordinal a + n\<rparr>)"
  shows "day_range now n (Some a) False = Inr (midnights (ordinal a + 1) (ordinal a + n))"
proof -
  have "612411 < ordinal a + 1" and "ordinal a + n \<le> 825914"
    using assms(2,3) by (auto simp: pd_in_bounds_iff)
  then show ?thesis
    using assms(1) pd_date_range_in_bounds [OF assms(2,3)]
    by (simp add: day_range_def timedelta_def dt_add_def dt_greater_def MAXORDINAL_def
        Let_def)
qed

lemma day_range_exclusive_backward:
  assumes "n < 0" and "pd_in_bounds (a\<lparr>ordinal := ordinal a - 1\<rparr>)"
    and "pd_in_bounds (a\<lparr>ordinal := ordinal a + n\<rparr>)"
  shows "day_range now n (Some a) False = Inr (midnights (ordinal a + n) (ordinal a - 1))"
proof -
  have bounds: "612411 < ordinal a + n" "ordinal a - 1 \<le> 825914"
    using assms(2,3) by (auto simp: pd_in_bounds_iff)
  show ?thesis
  proof (cases "n = - 1")
    case True
    then show ?thesis
      using bounds pd_date_range_in_bounds [OF assms(2,2)]
      by (simp add: day_range_def timedelta_def dt_add_def dt_greater_def MAXORDINAL_def
          Let_def)
  next
    case False
    with assms(1) have "n + 1 < 0" by simp
    then show ?thesis
      using bounds pd_date_range_in_bounds [OF assms(3,2)]
      by (simp add: day_range_def timedelta_def dt_add_def dt_greater_def MAXORDINAL_def
          Let_def)
  qed
qed

lemma ymd_2013_09_05: "ymd2ord 2013 9 5 = 735116"
  by (simp add: ymd2ord_def days_before_year_def days_before_month_def DAYS_BEFORE_MONTH_def
      DAYS_IN_MONTH_def is_leap_def)

lemma ymd_9999_12_31: "ymd2ord 9999 12 31 = 3652059"
  by (simp add: ymd2ord_def days_before_year_def days_before_month_def DAYS_BEFORE_MONTH_def
      DAYS_IN_MONTH_def is_leap_def)

lemma ymd_3000_01_01: "ymd2ord 3000 1 1 = 1095363"
  by (simp add: ymd2ord_def days_before_year_def days_before_month_def DAYS_BEFORE_MONTH_def
      DAYS_IN_MONTH_def is_leap_def)

lemma ymd_2262_04_11: "ymd2ord 2262 4 11 = 825914"
  by (simp add: ymd2ord_def days_before_year_def days_before_month_def DAYS_BEFORE_MONTH_def
      DAYS_IN_MONTH_def is_leap_def)

text \<open>
  C1, as the code has it: for every non-zero \<open>n\<close> and every date \<open>a\<close> such that \<open>a\<close> and
  the far end of the span, \<open>a + (n - shift)\<close> days, are both bounds that \<open>pd.date_range\<close>
  accepts (from 1677-09-22 to 2262-04-11 23:47:16.854775), \<open>day_range(n, a,
  inclusive=True)\<close> returns a sequence of length \<open>|n|\<close> that is strictly ascending, made
  of midnights one day apart, and that contains midnight of \<open>a\<close>'s day.
\<close>

theorem day_range_inclusive:
  assumes "n \<noteq> 0" and "pd_in_bounds a"
    and "pd_in_bounds (a\<lparr>ordinal := ordinal a + (n - (if n > 0 then 1 else - 1))\<rparr>)"
  shows "\<exists>xs. day_range now n (Some a) True = Inr xs
           \<and> length xs = nat \<bar>n\<bar>
           \<and> sorted_wrt (\<lambda>x y. dt_greater y x) xs
           \<and> daily_consecutive xs
           \<and> normalize_dt a \<in> set xs"
proof (cases "0 < n")
  case True
  with assms have "day_range now n (Some a) True
      = Inr (midnights (ordinal a) (ordinal a + (n - 1)))"
    by (simp add: day_range_inclusive_forward)
  moreover have "length (midnights (ordinal a) (ordinal a + (n - 1))) = nat \<bar>n\<bar>"
    using True by (simp add: length_midnights)
  moreover have "normalize_dt a \<in> set (midnights (ordinal a) (ordinal a + (n - 1)))"
    using True by (simp add: set_midnights normalize_dt_def)
  ultimately show ?thesis
    by (simp add: strictly_ascending_midnights daily_consecutive_midnights)
next
  case False
  with assms(1) have neg: "n < 0" by simp
  with assms have "day_range now n (Some a) True
      = Inr (midnights (ordinal a + (n + 1)) (ordinal a))"
    by (simp add: day_range_inclusive_backward)
  moreover have "length (midnights (ordinal a + (n + 1)) (ordinal a)) = nat \<bar>n\<bar>"
    using neg by (simp add: length_midnights)
  moreover have "normalize_dt a \<in> set (midnights (ordinal a + (n + 1)) (ordinal a))"
    using neg by (simp add: set_midnights normalize_dt_def)
  ultimately show ?thesis
    by (simp add: strictly_ascending_midnights daily_consecutive_midnights)
qed

text \<open>
  The theorem at the spec's second scenario, six days forward from 2013-09-05.
\<close>

theorem day_range_inclusive_witness:
  "(6::int) \<noteq> 0 \<and> pd_in_bounds (date_ymd 2013 9 5)
   \<and> pd_in_bounds ((date_ymd 2013 9 5)
        \<lparr>ordinal := ordinal (date_ymd 2013 9 5) + (6 - (if (6::int) > 0 then 1 else - 1))\<rparr>)
   \<and> (\<exists>xs. day_range (date_ymd 2013 9 5) 6 (Some (date_ymd 2013 9 5)) True = Inr xs
           \<and> length xs = nat \<bar>6\<bar>
           \<and> sorted_wrt (\<lambda>x y. dt_greater y x) xs
           \<and> daily_consecutive xs
           \<and> normalize_dt (date_ymd 2013 9 5) \<in> set xs)"
proof -
  have v: "pd_in_bounds (date_ymd 2013 9 5)"
    by (simp add: pd_in_bounds_iff date_ymd_def ymd_2013_09_05)
  have r: "pd_in_bounds ((date_ymd 2013 9 5)
        \<lparr>ordinal := ordinal (date_ymd 2013 9 5) + (6 - (if (6::int) > 0 then 1 else - 1))\<rparr>)"
    by (simp add: pd_in_bounds_iff date_ymd_def ymd_2013_09_05)
  have z: "(6::int) \<noteq> 0" by simp
  show ?thesis
    using v r day_range_inclusive [OF z v r, of "date_ymd 2013 9 5"] by simp
qed

text \<open>
  C1 as written, for every date, fails in two ways. At the last day of the calendar the
  swing date \<open>9999-12-31 + timedelta(1)\<close> is out of range and line 47 raises
  \<open>OverflowError\<close>. Beyond pandas' timestamps, as on 3000-01-01, line 56 raises
  \<open>OutOfBoundsDatetime\<close>.
\<close>

theorem day_range_inclusive_overflow:
  "valid_datetime (date_ymd 9999 12 31)
   \<and> day_range (date_ymd 2013 9 5) 2 (Some (date_ymd 9999 12 31)) True = Inl OverflowError
   \<and> valid_datetime (date_ymd 3000 1 1)
   \<and> day_range (date_ymd 2013 9 5) 1 (Some (date_ymd 3000 1 1)) True
       = Inl OutOfBoundsDatetime"
  by (simp add: valid_datetime_def representable_def MAXORDINAL_def date_ymd_def
      ymd_9999_12_31 ymd_3000_01_01 day_range_def timedelta_def dt_add_def dt_greater_def
      pd_date_range_def to_timestamp_def timestamp_bounds)

text \<open>
  C3, as the code has it: for every non-zero \<open>n\<close> and every date \<open>a\<close> such that the two
  ends of the span, \<open>a + shift\<close> days and \<open>a + n\<close> days, are both bounds that
  \<open>pd.date_range\<close> accepts (from 1677-09-22 to 2262-04-11 23:47:16.854775),
  \<open>day_range(n, a, inclusive=False)\<close> returns a sequence of length \<open>|n|\<close> that contains
  neither \<open>a\<close> nor midnight of \<open>a\<close>'s day.
\<close>

theorem day_range_exclusive:
  assumes "n \<noteq> 0"
    and "pd_in_bounds (a\<lparr>ordinal := ordinal a + (if n > 0 then 1 else - 1)\<rparr>)"
    and "pd_in_bounds (a\<lparr>ordinal := ordinal a + n\<rparr>)"
  shows "\<exists>xs. day_range now n (Some a) False = Inr xs
           \<and> length xs = nat \<bar>n\<bar>
           \<and> a \<notin> set xs \<and> normalize_dt a \<notin> set xs"
proof (cases "0 < n")
  case True
  with assms have "day_range now n (Some a) False
      = Inr (midnights (ordinal a + 1) (ordinal a + n))"
    by (simp add: day_range_exclusive_forward)
  then show ?thesis
    using True by (simp add: length_midnights set_midnights normalize_dt_def)
next
  case False
  with assms(1) have neg: "n < 0" by simp
  with assms have "day_range now n (Some a) False
      = Inr (midnights (ordinal a + n) (ordinal a - 1))"
    by (simp add: day_range_exclusive_backward)
  then show ?thesis
    using neg by (simp add: length_midnights set_midnights normalize_dt_def)
qed

text \<open>
  The theorem six days back from 2013-09-05 14:30.
\<close>

theorem day_range_exclusive_witness:
  "(- 6::int) \<noteq> 0
   \<and> pd_in_bounds ((datetime_ymd_hms 2013 9 5 14 30 0 0)
        \<lparr>ordinal := ordinal (datetime_ymd_hms 2013 9 5 14 30 0 0)
           + (if (- 6::int) > 0 then 1 else - 1)\<rparr>)
   \<and> pd_in_bounds ((datetime_ymd_hms 2013 9 5 14 30 0 0)
        \<lparr>ordinal := ordinal (datetime_ymd_hms 2013 9 5 14 30 0 0) + (- 6)\<rparr>)
   \<and> (\<exists>xs. day_range (date_ymd 2013 9 5) (- 6) (Some (datetime_ymd_hms 2013 9 5 14 30 0 0)) False = Inr xs
           \<and> length xs = nat \<bar>- 6\<bar>
           \<and> datetime_ymd_hms 2013 9 5 14 30 0 0 \<notin> set xs
           \<and> normalize_dt (datetime_ymd_hms 2013 9 5 14 30 0 0) \<notin> set xs)"
proof -
  have v: "pd_in_bounds ((datetime_ymd_hms 2013 9 5 14 30 0 0)
        \<lparr>ordinal := ordinal (datetime_ymd_hms 2013 9 5 14 30 0 0)
           + (if (- 6::int) > 0 then 1 else - 1)\<rparr>)"
    by (simp add: pd_in_bounds_iff datetime_ymd_hms_def ymd_2013_09_05)
  have r: "pd_in_bounds ((datetime_ymd_hms 2013 9 5 14 30 0 0)
        \<lparr>ordinal := ordinal (datetime_ymd_hms 2013 9 5 14 30 0 0) + (- 6)\<rparr>)"
    by (simp add: pd_in_bounds_iff datetime_ymd_hms_def ymd_2013_09_05)
  have z: "(- 6::int) \<noteq> 0" by simp
  show ?thesis
    using v r day_range_exclusive [OF z v r, of "date_ymd 2013 9 5"] by simp
qed

text \<open>
  C3 as written, for every date, fails in two ways. At the last day of the calendar
  line 50 shifts the anchor to \<open>9999-12-31 + timedelta(1)\<close>, which raises
  \<open>OverflowError\<close>. Beyond pandas' timestamps, as on 3000-01-01, line 56 raises
  \<open>OutOfBoundsDatetime\<close>.
\<close>

theorem day_range_exclusive_overflow:
  "valid_datetime (date_ymd 9999 12 31)
   \<and> day_range (date_ymd 2013 9 5) 1 (Some (date_ymd 9999 12 31)) False = Inl OverflowError
   \<and> valid_datetime (date_ymd 3000 1 1)
   \<and> day_range (date_ymd 2013 9 5) 1 (Some (date_ymd 3000 1 1)) False
       = Inl OutOfBoundsDatetime"
  by (simp add: valid_datetime_def representable_def MAXORDINAL_def date_ymd_def
      ymd_9999_12_31 ymd_3000_01_01 day_range_def timedelta_def dt_add_def dt_greater_def
      pd_date_range_def to_timestamp_def timestamp_bounds)

text \<open>
  C6: \<open>day_range(-6, datetime(2013, 9, 5), inclusive=False)\<close> is exactly the six
  midnights 2013-08-30, 2013-08-31, 2013-09-01, 2013-09-02, 2013-09-03, 2013-09-04, in
  this order.
\<close>

theorem day_range_scenario_1:
  "day_range now (- 6) (Some (date_ymd 2013 9 5)) False =
     Inr [date_ymd 2013 8 30, date_ymd 2013 8 31, date_ymd 2013 9 1,
          date_ymd 2013 9 2, date_ymd 2013 9 3, date_ymd 2013 9 4]"
  by (simp add: day_range_def timedelta_def dt_add_def dt_greater_def MAXORDINAL_def
      pd_date_range_def to_timestamp_def timestamp_bounds midnights_def normalize_dt_def
      date_ymd_def ymd2ord_def days_before_year_def days_before_month_def
      DAYS_BEFORE_MONTH_def DAYS_IN_MONTH_def is_leap_def)

text \<open>
  Whenever \<open>day_range\<close> returns a sequence for an anchor, it returns the same sequence
  for midnight of the anchor's day.
\<close>

lemma day_range_midnight_of_result:
  assumes "day_range now n (Some a) inclusive = Inr xs"
  shows "day_range now n (Some (normalize_dt a)) inclusive = Inr xs"
  using assms
  by (auto simp add: day_range_def timedelta_def dt_add_def dt_greater_def Let_def
      pd_date_range_iff pd_in_bounds_iff normalize_dt_def bind_err_def
      split: if_splits sum.splits)

text \<open>
  C10, as the code has it: for every non-zero \<open>n\<close>, value of \<open>inclusive\<close> and anchor \<open>a\<close>
  with any time of day such that the two ends of the span, taken with \<open>a\<close>'s time of
  day, are bounds that \<open>pd.date_range\<close> accepts (from 1677-09-22 to 2262-04-11
  23:47:16.854775), \<open>day_range(n, a, inclusive)\<close> returns a sequence and
  \<open>day_range(n, m, inclusive)\<close>, with \<open>m\<close> midnight of \<open>a\<close>'s day, returns the same
  sequence. The ends are \<open>a\<close> and \<open>a + (n - shift)\<close> days when \<open>inclusive\<close> is true,
  \<open>a + shift\<close> and \<open>a + n\<close> days when it is false.
\<close>

theorem day_range_ignores_time_of_day:
  assumes "n \<noteq> 0"
    and "pd_in_bounds
           (a\<lparr>ordinal := ordinal a + (if inclusive then 0 else if n > 0 then 1 else - 1)\<rparr>)"
    and "pd_in_bounds
           (a\<lparr>ordinal := ordinal a
              + (if inclusive then n - (if n > 0 then 1 else - 1) else n)\<rparr>)"
  shows "\<exists>xs. day_range now n (Some a) inclusive = Inr xs
           \<and> day_range now n (Some (normalize_dt a)) inclusive = Inr xs"
proof -
  have "\<exists>xs. day_range now n (Some a) inclusive = Inr xs"
  proof (cases inclusive)
    case True
    with assms(2) have a: "pd_in_bounds a" by simp
    show ?thesis
    proof (cases "0 < n")
      case pos: True
      with assms(3) True have "pd_in_bounds (a\<lparr>ordinal := ordinal a + (n - 1)\<rparr>)" by simp
      then show ?thesis
        using True day_range_inclusive_forward [OF pos a, of now] by simp
    next
      case False
      with assms(1) have neg: "n < 0" by simp
      with assms(3) True have "pd_in_bounds (a\<lparr>ordinal := ordinal a + (n + 1)\<rparr>)" by simp
      then show ?thesis
        using True day_range_inclusive_backward [OF neg a, of now] by simp
    qed
  next
    case excl: False
    show ?thesis
    proof (cases "0 < n")
      case pos: True
      with assms(2,3) excl have "pd_in_bounds (a\<lparr>ordinal := ordinal a + 1\<rparr>)"
        and "pd_in_bounds (a\<lparr>ordinal := ordinal a + n\<rparr>)" by simp_all
      then show ?thesis
        using excl day_range_exclusive_forward [OF pos, of a now] by simp
    next
      case False
      with assms(1) have neg: "n < 0" by simp
      with assms(2,3) excl have "pd_in_bounds (a\<lparr>ordinal := ordinal a - 1\<rparr>)"
        and "pd_in_bounds (a\<lparr>ordinal := ordinal a + n\<rparr>)" by simp_all
      then show ?thesis
        using excl day_range_exclusive_backward [OF neg, of a now] by simp
    qed
  qed
  then obtain xs where "day_range now n (Some a) inclusive = Inr xs" ..
  then show ?thesis
    using day_range_midnight_of_result by blast
qed

text \<open>
  The theorem six days back from 2013-09-05 14:30, with the anchor excluded.
\<close>

theorem day_range_ignores_time_of_day_witness:
  "(- 6::int) \<noteq> 0
   \<and> pd_in_bounds ((datetime_ymd_hms 2013 9 5 14 30 0 0)
        \<lparr>ordinal := ordinal (datetime_ymd_hms 2013 9 5 14 30 0 0)
           + (if False then 0 else if (- 6::int) > 0 then 1 else - 1)\<rparr>)
   \<and> pd_in_bounds ((datetime_ymd_hms 2013 9 5 14 30 0 0)
        \<lparr>ordinal := ordinal (datetime_ymd_hms 2013 9 5 14 30 0 0)
           + (if False then - 6 - (if (- 6::int) > 0 then 1 else - 1) else - 6)\<rparr>)
   \<and> (\<exists>xs. day_range (date_ymd 2013 9 5) (- 6)
              (Some (datetime_ymd_hms 2013 9 5 14 30 0 0)) False = Inr xs
         \<and> day_range (date_ymd 2013 9 5) (- 6)
              (Some (normalize_dt (datetime_ymd_hms 2013 9 5 14 30 0 0))) False = Inr xs)"
proof -
  have z: "(- 6::int) \<noteq> 0" by simp
  have v: "pd_in_bounds ((datetime_ymd_hms 2013 9 5 14 30 0 0)
        \<lparr>ordinal := ordinal (datetime_ymd_hms 2013 9 5 14 30 0 0)
           + (if False then 0 else if (- 6::int) > 0 then 1 else - 1)\<rparr>)"
    by (simp add: pd_in_bounds_iff datetime_ymd_hms_def ymd_2013_09_05)
  have r: "pd_in_bounds ((datetime_ymd_hms 2013 9 5 14 30 0 0)
        \<lparr>ordinal := ordinal (datetime_ymd_hms 2013 9 5 14 30 0 0)
           + (if False then - 6 - (if (- 6::int) > 0 then 1 else - 1) else - 6)\<rparr>)"
    by (simp add: pd_in_bounds_iff datetime_ymd_hms_def ymd_2013_09_05)
  show ?thesis
    using z v r day_range_ignores_time_of_day [OF z v r, of "date_ymd 2013 9 5"]
    by blast
qed

text \<open>
  C10 as written fails on the last day of pandas' timestamps: the anchor 2262-04-11
  23:50 is after \<open>Timestamp.max\<close> and line 56 raises, while midnight of the same day is a
  timestamp and the call returns that day.
\<close>

theorem day_range_time_of_day_matters:
  "day_range (date_ymd 2013 9 5) 1 (Some (datetime_ymd_hms 2262 4 11 23 50 0 0)) True
     = Inl OutOfBoundsDatetime
   \<and> day_range (date_ymd 2013 9 5) 1
       (Some (normalize_dt (datetime_ymd_hms 2262 4 11 23 50 0 0))) True
     = Inr [date_ymd 2262 4 11]"
  by (simp add: day_range_def timedelta_def dt_add_def dt_greater_def MAXORDINAL_def
      pd_date_range_def to_timestamp_def timestamp_bounds midnights_def normalize_dt_def
      date_ymd_def datetime_ymd_hms_def ymd_2262_04_11)

section \<open>Properties of the frequency-bound wrappers\<close>


text \<open>
  The same holds with \<open>dt\<close> passed by keyword, and with both arguments left out. Since
  \<open>partial\<close> binds \<open>freq\<close> by keyword, a second positional argument lands on \<open>freq\<close> too
  and the call raises \<open>TypeError\<close>: \<open>full_range\<close> has to be passed by keyword.
\<close>

lemma week_range_keywords:
  "week_range resolve_first resolve_end now [] [(''dt'', PDatetime d), (''full_range'', PBool full_range)]
     = date_range resolve_first resolve_end now (Some d) ''w'' full_range"
  by (simp add: week_range_def partial_def call_date_range_def PARAMS_def argument_def)

lemma week_range_defaults:
  "week_range resolve_first resolve_end now [] [] = date_range resolve_first resolve_end now None ''w'' True"
  by (simp add: week_range_def partial_def call_date_range_def PARAMS_def argument_def)

lemma week_range_positional_full_range:
  "week_range resolve_first resolve_end now [PDatetime d, PBool full_range] [] = Inl TypeError"
  by (simp add: week_range_def partial_def call_date_range_def PARAMS_def argument_def)

section \<open>Properties of the calendar\<close>

text \<open>
  \<open>_ord2ymd\<close> inverts \<open>_ymd2ord\<close>: the year, month and day it computes for an ordinal
  form a calendar date whose ordinal is the one given.
\<close>

lemma month_cases:
  assumes "1 \<le> (m::int)" and "m \<le> 12"
  shows "m = 1 \<or> m = 2 \<or> m = 3 \<or> m = 4 \<or> m = 5 \<or> m = 6
      \<or> m = 7 \<or> m = 8 \<or> m = 9 \<or> m = 10 \<or> m = 11 \<or> m = 12"
proof -
  have l: "[1..12::int] = [1, 2, 3, 4, 5, 6, 7, 8, 9, 10, 11, 12]"
    by (simp add: upto_rec1)
  from assms have "m \<in> set [1..12]" by simp
  then show ?thesis unfolding l by simp
qed

lemma month_day_correct:
  assumes "0 \<le> r" and "r \<le> 364"
  shows "\<exists>m d. month_day L r = (m, d) \<and> 1 \<le> m \<and> m \<le> 12 \<and> 1 \<le> d
           \<and> d \<le> DAYS_IN_MONTH ! nat m + (if m = 2 \<and> L then 1 else 0)
           \<and> DAYS_BEFORE_MONTH m + (if m > 2 \<and> L then 1 else 0) + d = r + 1"
proof -
  define m0 where "m0 = (r + 50) div 32"
  have lo: "32 * m0 \<le> r + 50" and hi: "r + 50 < 32 * m0 + 32"
    unfolding m0_def by arith+
  have "1 \<le> m0" "m0 \<le> 12"
    using assms lo hi by linarith+
  then have cases: "m0 = 1 \<or> m0 = 2 \<or> m0 = 3 \<or> m0 = 4 \<or> m0 = 5 \<or> m0 = 6
      \<or> m0 = 7 \<or> m0 = 8 \<or> m0 = 9 \<or> m0 = 10 \<or> m0 = 11 \<or> m0 = 12"
    by (rule month_cases)
  have eq: "month_day L r =
     (let month = m0;
          preceding = DAYS_BEFORE_MONTH month + (if month > 2 \<and> L then 1 else 0)
      in if preceding > r
         then
           let month = month - 1;
               preceding = preceding
                 - (DAYS_IN_MONTH ! nat month + (if month = 2 \<and> L then 1 else 0))
           in (month, r - preceding + 1)
         else (month, r - preceding + 1))"
    unfolding month_day_def m0_def ..
  from cases show ?thesis
  proof (elim disjE)
    assume "m0 = 1"
    then show ?thesis using assms lo hi unfolding eq
      by (simp add: DAYS_BEFORE_MONTH_def DAYS_IN_MONTH_def)
  next
    assume "m0 = 2"
    then show ?thesis using assms lo hi unfolding eq
      by (simp add: DAYS_BEFORE_MONTH_def DAYS_IN_MONTH_def)
  next
    assume "m0 = 3"
    then show ?thesis using assms lo hi unfolding eq
      by (simp add: DAYS_BEFORE_MONTH_def DAYS_IN_MONTH_def)
  next
    assume "m0 = 4"
    then show ?thesis using assms lo hi unfolding eq
      by (simp add: DAYS_BEFORE_MONTH_def DAYS_IN_MONTH_def)
  next
    assume "m0 = 5"
    then show ?thesis using assms lo hi unfolding eq
      by (simp add: DAYS_BEFORE_MONTH_def DAYS_IN_MONTH_def)
  next
    assume "m0 = 6"
    then show ?thesis using assms lo hi unfolding eq
      by (simp add: DAYS_BEFORE_MONTH_def DAYS_IN_MONTH_def)
  next
    assume "m0 = 7"
    then show ?thesis using assms lo hi unfolding eq
      by (simp add: DAYS_BEFORE_MONTH_def DAYS_IN_MONTH_def)
  next
    assume "m0 = 8"
    then show ?thesis using assms lo hi unfolding eq
      by (simp add: DAYS_BEFORE_MONTH_def DAYS_IN_MONTH_def)
  next
    assume "m0 = 9"
    then show ?thesis using assms lo hi unfolding eq
      by (simp add: DAYS_BEFORE_MONTH_def DAYS_IN_MONTH_def)
  next
    assume "m0 = 10"
    then show ?thesis using assms lo hi unfolding eq
      by (simp add: DAYS_BEFORE_MONTH_def DAYS_IN_MONTH_def)
  next
    assume "m0 = 11"
    then show ?thesis using assms lo hi unfolding eq
      by (simp add: DAYS_BEFORE_MONTH_def DAYS_IN_MONTH_def)
  next
    assume "m0 = 12"
    then show ?thesis using assms lo hi unfolding eq
      by (simp add: DAYS_BEFORE_MONTH_def DAYS_IN_MONTH_def)
  qed
qed

lemma DI_consts: "DI400Y = 146097" "DI100Y = 36524" "DI4Y = 1461"
  by (simp_all add: DI400Y_def DI100Y_def DI4Y_def days_before_year_def)

lemma mod_eq_0_range: "0 < x \<Longrightarrow> x \<le> k \<Longrightarrow> x mod k = 0 \<longleftrightarrow> x = (k::int)"
  by (cases "x = k") simp_all

lemma is_leap_cycle:
  assumes "0 \<le> b" "b \<le> 3" "0 \<le> c" "c \<le> 24" "0 \<le> e" "e \<le> 3"
  shows "is_leap (400 * a + 100 * b + 4 * c + e + 1) \<longleftrightarrow> e = 3 \<and> (c \<noteq> 24 \<or> b = 3)"
proof -
  define y where "y = 400 * a + 100 * b + 4 * c + e + 1"
  have "y = 4 * (100 * a + 25 * b + c) + (e + 1)" by (simp add: y_def)
  then have "y mod 4 = (e + 1) mod 4" by (simp only: mod_mult_self4)
  then have m4: "y mod 4 = 0 \<longleftrightarrow> e = 3"
    using assms mod_eq_0_range [of "e + 1" 4] by simp
  have "y = 100 * (4 * a + b) + (4 * c + e + 1)" by (simp add: y_def)
  then have "y mod 100 = (4 * c + e + 1) mod 100" by (simp only: mod_mult_self4)
  then have m100: "y mod 100 = 0 \<longleftrightarrow> 4 * c + e + 1 = 100"
    using assms mod_eq_0_range [of "4 * c + e + 1" 100] by simp
  have "y = 400 * a + (100 * b + 4 * c + e + 1)" by (simp add: y_def)
  then have "y mod 400 = (100 * b + 4 * c + e + 1) mod 400" by (simp only: mod_mult_self4)
  then have m400: "y mod 400 = 0 \<longleftrightarrow> 100 * b + 4 * c + e + 1 = 400"
    using assms mod_eq_0_range [of "100 * b + 4 * c + e + 1" 400] by simp
  have "is_leap y \<longleftrightarrow> e = 3 \<and> (c \<noteq> 24 \<or> b = 3)"
    unfolding is_leap_def m4 m100 m400 using assms by auto
  then show ?thesis unfolding y_def .
qed

lemma days_before_year_cycle:
  assumes "0 \<le> b" "b \<le> 3" "0 \<le> c" "c \<le> 24" "0 \<le> e" "e \<le> 3"
  shows "days_before_year (400 * a + 100 * b + 4 * c + e + 1)
           = 146097 * a + 36524 * b + 1461 * c + 365 * e"
proof -
  define x where "x = 400 * a + 100 * b + 4 * c + e"
  have d4: "x div 4 = 100 * a + 25 * b + c"
    unfolding x_def using assms by arith
  have d100: "x div 100 = 4 * a + b"
    unfolding x_def using assms by arith
  have d400: "x div 400 = a"
    unfolding x_def using assms by arith
  have "days_before_year (x + 1) = x * 365 + x div 4 - x div 100 + x div 400"
    by (simp add: days_before_year_def)
  then show ?thesis
    unfolding d4 d100 d400 unfolding x_def by simp
qed

lemma ord2ymd_split:
  fixes n :: int
  obtains a b c e r where
    "n - 1 = 146097 * a + 36524 * b + 1461 * c + 365 * e + r"
    "0 \<le> b" "b \<le> 4" "0 \<le> c" "c \<le> 24" "0 \<le> e" "e \<le> 4" "0 \<le> r" "r \<le> 364"
    "b = 4 \<longrightarrow> c = 0 \<and> e = 0 \<and> r = 0"
    "e = 4 \<longrightarrow> r = 0 \<and> c \<le> 23"
    "ord2ymd n =
       (if e = 4 \<or> b = 4 then (a * 400 + 1 + b * 100 + c * 4 + e - 1, 12, 31)
        else
          let leapyear = (e = 3 \<and> (c \<noteq> 24 \<or> b = 3));
              (month, day) = month_day leapyear r
          in (a * 400 + 1 + b * 100 + c * 4 + e, month, day))"
proof -
  define n0 where "n0 = n - 1"
  define a where "a = n0 div 146097"
  define r1 where "r1 = n0 mod 146097"
  define b where "b = r1 div 36524"
  define r2 where "r2 = r1 mod 36524"
  define c where "c = r2 div 1461"
  define r3 where "r3 = r2 mod 1461"
  define e where "e = r3 div 365"
  define r where "r = r3 mod 365"
  have s1: "n0 = 146097 * a + r1" "0 \<le> r1" "r1 < 146097"
    unfolding a_def r1_def by simp_all
  have s2: "r1 = 36524 * b + r2" "0 \<le> r2" "r2 < 36524"
    unfolding b_def r2_def by simp_all
  have s3: "r2 = 1461 * c + r3" "0 \<le> r3" "r3 < 1461"
    unfolding c_def r3_def by simp_all
  have s4: "r3 = 365 * e + r" "0 \<le> r" "r < 365"
    unfolding e_def r_def by simp_all
  have b: "0 \<le> b" "b \<le> 4" using s1 s2 by linarith+
  have c: "0 \<le> c" "c \<le> 24" using s2 s3 by linarith+
  have e: "0 \<le> e" "e \<le> 4" using s3 s4 by linarith+
  have b4: "b = 4 \<longrightarrow> c = 0 \<and> e = 0 \<and> r = 0"
    using s1 s2 s3 s4 c e by auto
  have e4: "e = 4 \<longrightarrow> r = 0 \<and> c \<le> 23"
    using s2 s3 s4 c by auto
  have sum: "n - 1 = 146097 * a + 36524 * b + 1461 * c + 365 * e + r"
    using s1(1) s2(1) s3(1) s4(1) n0_def by linarith
  have eq: "ord2ymd n =
       (if e = 4 \<or> b = 4 then (a * 400 + 1 + b * 100 + c * 4 + e - 1, 12, 31)
        else
          let leapyear = (e = 3 \<and> (c \<noteq> 24 \<or> b = 3));
              (month, day) = month_day leapyear r
          in (a * 400 + 1 + b * 100 + c * 4 + e, month, day))"
    unfolding ord2ymd_def DI_consts Let_def r_def e_def r3_def c_def r2_def b_def r1_def a_def n0_def
    by simp
  show thesis
    using that [OF sum b c e s4(2) _ b4 e4 eq] s4(3) by simp
qed

lemma ord2ymd_correct:
  "\<exists>y m d. ord2ymd n = (y, m, d) \<and> 1 \<le> m \<and> m \<le> 12 \<and> 1 \<le> d
     \<and> d \<le> days_in_month y m \<and> ymd2ord y m d = n"
proof -
  obtain a b c e r where
    sum: "n - 1 = 146097 * a + 36524 * b + 1461 * c + 365 * e + r"
    and b: "0 \<le> b" "b \<le> 4" and c: "0 \<le> c" "c \<le> 24" and e: "0 \<le> e" "e \<le> 4"
    and r: "0 \<le> r" "r \<le> 364"
    and b4: "b = 4 \<longrightarrow> c = 0 \<and> e = 0 \<and> r = 0"
    and e4: "e = 4 \<longrightarrow> r = 0 \<and> c \<le> 23"
    and eq: "ord2ymd n =
       (if e = 4 \<or> b = 4 then (a * 400 + 1 + b * 100 + c * 4 + e - 1, 12, 31)
        else
          let leapyear = (e = 3 \<and> (c \<noteq> 24 \<or> b = 3));
              (month, day) = month_day leapyear r
          in (a * 400 + 1 + b * 100 + c * 4 + e, month, day))"
    by (rule ord2ymd_split)
  have dec31: "days_in_month y 12 = 31" "DAYS_BEFORE_MONTH 12 = 334" for y
    by (simp_all add: days_in_month_def DAYS_BEFORE_MONTH_def DAYS_IN_MONTH_def)
  show ?thesis
  proof (cases "b = 4")
    case True
    with b4 have z: "c = 0" "e = 0" "r = 0" by simp_all
    have y: "a * 400 + 1 + b * 100 + c * 4 + e - 1 = 400 * a + 100 * 3 + 4 * 24 + 3 + 1"
      using True z by simp
    have "days_before_year (400 * a + 100 * 3 + 4 * 24 + 3 + 1) = 146097 * a + 36524 * 3 + 1461 * 24 + 365 * 3"
      by (rule days_before_year_cycle) simp_all
    moreover have "is_leap (400 * a + 100 * 3 + 4 * 24 + 3 + 1)"
      using is_leap_cycle [of 3 24 3 a] by simp
    ultimately have "ymd2ord (400 * a + 100 * 3 + 4 * 24 + 3 + 1) 12 31 = n"
      using sum True z by (simp add: ymd2ord_def days_before_month_def dec31)
    then show ?thesis
      using True eq y by (simp add: dec31 mult.commute)
  next
    case b3: False
    with b have b': "b \<le> 3" by simp
    show ?thesis
    proof (cases "e = 4")
      case True
      with e4 have z: "r = 0" "c \<le> 23" by simp_all
      have y: "a * 400 + 1 + b * 100 + c * 4 + e - 1 = 400 * a + 100 * b + 4 * c + 3 + 1"
        using True by simp
      have "days_before_year (400 * a + 100 * b + 4 * c + 3 + 1) = 146097 * a + 36524 * b + 1461 * c + 365 * 3"
        using b(1) b' c by (intro days_before_year_cycle) simp_all
      moreover have "is_leap (400 * a + 100 * b + 4 * c + 3 + 1)"
        using is_leap_cycle [of b c 3 a] b(1) b' c z by simp
      ultimately have "ymd2ord (400 * a + 100 * b + 4 * c + 3 + 1) 12 31 = n"
        using sum True z by (simp add: ymd2ord_def days_before_month_def dec31)
      then show ?thesis
        using True eq y by (simp add: dec31 mult.commute)
    next
      case e3: False
      with e have e': "e \<le> 3" by simp
      define L where "L = (e = 3 \<and> (c \<noteq> 24 \<or> b = 3))"
      define y where "y = 400 * a + 100 * b + 4 * c + e + 1"
      obtain m d where md: "month_day L r = (m, d)" and m: "1 \<le> m" "m \<le> 12" and d: "1 \<le> d"
        and dmax: "d \<le> DAYS_IN_MONTH ! nat m + (if m = 2 \<and> L then 1 else 0)"
        and doy: "DAYS_BEFORE_MONTH m + (if m > 2 \<and> L then 1 else 0) + d = r + 1"
        using month_day_correct [OF r, of L] by blast
      have leap: "is_leap y = L"
        unfolding y_def L_def using b(1) b' c e(1) e' by (rule is_leap_cycle)
      have dby: "days_before_year y = 146097 * a + 36524 * b + 1461 * c + 365 * e"
        unfolding y_def using b(1) b' c e(1) e' by (rule days_before_year_cycle)
      have feb: "DAYS_IN_MONTH ! nat 2 = 28" by (simp add: DAYS_IN_MONTH_def)
      have "ord2ymd n = (y, m, d)"
        using eq b3 e3 md by (simp add: L_def y_def)
      moreover have "d \<le> days_in_month y m"
        using dmax feb by (auto simp: days_in_month_def leap split: if_splits)
      moreover have "ymd2ord y m d = n"
        using doy dby sum by (simp add: ymd2ord_def days_before_month_def leap)
      ultimately show ?thesis
        using m d by simp
    qed
  qed
qed

section \<open>Properties of the period boundary resolver\<close>

lemma period_months:
  assumes "1 \<le> m" and "m \<le> 12"
  shows "days_before_month y (3 * ((m - 1) div 3) + 1) \<le> days_before_month y m"
    and "days_before_month y m + days_in_month y m
           \<le> days_before_month y (3 * ((m - 1) div 3) + 3)
               + days_in_month y (3 * ((m - 1) div 3) + 3)"
    and "days_before_month y 1 \<le> days_before_month y m"
    and "days_before_month y m + days_in_month y m \<le> days_before_month y 12 + 31"
  using month_cases [OF assms]
  by (auto simp: days_before_month_def days_in_month_def DAYS_BEFORE_MONTH_def DAYS_IN_MONTH_def)

lemma weekday_range: "0 \<le> weekday dt" "weekday dt \<le> 6"
  by (simp_all add: weekday_def)

lemma frequency_cases:
  assumes "f \<in> set FREQUENCIES"
  shows "f = ''d'' \<or> f = ''w'' \<or> f = ''m'' \<or> f = ''q'' \<or> f = ''y''"
  using assms by (simp add: FREQUENCIES_def)

lemma weekday_below:
  assumes "0 < ordinal dt"
  shows "weekday dt < ordinal dt"
proof (cases "ordinal dt < 7")
  case True
  with assms have "(ordinal dt + 6) mod 7 = ordinal dt - 1"
    by presburger
  then show ?thesis by (simp add: weekday_def)
next
  case False
  then show ?thesis using weekday_range(2) [of dt] by simp
qed

lemma first_of_bounds:
  assumes "first_of dt f = Inr s"
  shows "tod s = 0" and "ordinal s \<le> ordinal dt"
proof -
  obtain y m d where ymd: "ord2ymd (ordinal dt) = (y, m, d)"
    and m: "1 \<le> m" "m \<le> 12" and d: "1 \<le> d" "d \<le> days_in_month y m"
    and ord: "ymd2ord y m d = ordinal dt"
    using ord2ymd_correct [of "ordinal dt"] by blast
  have month: "ymd2ord y m 1 \<le> ordinal dt"
    using ord d by (simp add: ymd2ord_def)
  have quarter: "ymd2ord y (3 * ((m - 1) div 3) + 1) 1 \<le> ordinal dt"
    using month period_months(1) [OF m, of y] by (simp add: ymd2ord_def)
  have year: "ymd2ord y 1 1 \<le> ordinal dt"
    using month period_months(3) [OF m, of y] by (simp add: ymd2ord_def)
  have week: "ordinal w \<le> ordinal dt" if "dt_add dt (- weekday dt) = Inr w" for w
    using that weekday_range(1) [of dt] by (auto simp: dt_add_def Let_def split: if_splits)
  show "tod s = 0"
    using assms ymd
    by (auto simp: first_of_def date_ymd_def normalize_dt_def bind_err_def
        split: if_splits sum.splits)
  show "ordinal s \<le> ordinal dt"
    using assms ymd ord month quarter year week
    by (auto simp: first_of_def date_ymd_def normalize_dt_def bind_err_def
        split: if_splits sum.splits)
qed

lemma end_of_bounds:
  assumes "end_of dt f = Inr e"
  shows "tod e = 0" and "ordinal dt \<le> ordinal e"
proof -
  obtain y m d where ymd: "ord2ymd (ordinal dt) = (y, m, d)"
    and m: "1 \<le> m" "m \<le> 12" and d: "1 \<le> d" "d \<le> days_in_month y m"
    and ord: "ymd2ord y m d = ordinal dt"
    using ord2ymd_correct [of "ordinal dt"] by blast
  have month: "ordinal dt \<le> ymd2ord y m (days_in_month y m)"
    using ord d by (simp add: ymd2ord_def)
  have quarter: "ordinal dt \<le> ymd2ord y (3 * ((m - 1) div 3) + 3)
      (days_in_month y (3 * ((m - 1) div 3) + 3))"
    using month period_months(2) [OF m, of y] by (simp add: ymd2ord_def)
  have year: "ordinal dt \<le> ymd2ord y 12 31"
    using month period_months(4) [OF m, of y] by (simp add: ymd2ord_def)
  have week: "ordinal dt \<le> ordinal w" if "dt_add dt (6 - weekday dt) = Inr w" for w
    using that weekday_range(2) [of dt] by (auto simp: dt_add_def Let_def split: if_splits)
  show "tod e = 0"
    using assms ymd
    by (auto simp: end_of_def date_ymd_def normalize_dt_def bind_err_def Let_def
        split: if_splits sum.splits)
  show "ordinal dt \<le> ordinal e"
    using assms ymd ord month quarter year week
    by (auto simp: end_of_def date_ymd_def normalize_dt_def bind_err_def Let_def
        split: if_splits sum.splits)
qed

text \<open>
  The resolver returns both boundaries for each of the five codes and every date whose
  week ends inside the calendar.
\<close>

lemma resolver_accepts:
  assumes "f \<in> set FREQUENCIES" and "representable (ordinal dt)"
    and "ordinal dt + 6 \<le> MAXORDINAL"
  shows "\<exists>s e. first_of dt f = Inr s \<and> end_of dt f = Inr e"
proof -
  obtain y m d where ymd: "ord2ymd (ordinal dt) = (y, m, d)"
    by (metis prod_cases3)
  have pos: "0 < ordinal dt" and top: "ordinal dt \<le> MAXORDINAL"
    using assms(2) by (simp_all add: representable_def)
  have monday: "\<exists>w. dt_add dt (- weekday dt) = Inr w"
    using weekday_below [OF pos] weekday_range(1) [of dt] top
    by (simp add: dt_add_def Let_def)
  have sunday: "\<exists>w. dt_add dt (6 - weekday dt) = Inr w"
    using weekday_range [of dt] pos assms(3)
    by (simp add: dt_add_def Let_def)
  from frequency_cases [OF assms(1)] show ?thesis
    using ymd monday sunday
    by (elim disjE) (auto simp: first_of_def end_of_def Let_def)
qed

lemma midnight_record:
  assumes "tod s = 0"
  shows "\<lparr>ordinal = ordinal s, tod = 0\<rparr> = s"
  using assms by (cases s) simp

lemma normalize_dt_record: "normalize_dt t = \<lparr>ordinal = ordinal t, tod = 0\<rparr>"
  by (cases t) (simp add: normalize_dt_def)

section \<open>Properties of the period-range builder\<close>

lemma ymd_2013_09_01: "ymd2ord 2013 9 1 = 735112"
  by (simp add: ymd2ord_def days_before_year_def days_before_month_def DAYS_BEFORE_MONTH_def
      DAYS_IN_MONTH_def is_leap_def)

lemma ymd_2013_09_15: "ymd2ord 2013 9 15 = 735126"
  by (simp add: ymd2ord_def days_before_year_def days_before_month_def DAYS_BEFORE_MONTH_def
      DAYS_IN_MONTH_def is_leap_def)

lemma ymd_2013_09_30: "ymd2ord 2013 9 30 = 735141"
  by (simp add: ymd2ord_def days_before_year_def days_before_month_def DAYS_BEFORE_MONTH_def
      DAYS_IN_MONTH_def is_leap_def)

lemma ymd_3000_01_15: "ymd2ord 3000 1 15 = 1095377"
  by (simp add: ymd2ord_def days_before_year_def days_before_month_def DAYS_BEFORE_MONTH_def
      DAYS_IN_MONTH_def is_leap_def)

lemma ymd_3000_01_31: "ymd2ord 3000 1 31 = 1095393"
  by (simp add: ymd2ord_def days_before_year_def days_before_month_def DAYS_BEFORE_MONTH_def
      DAYS_IN_MONTH_def is_leap_def)

lemma ord_2013_09_01: "ord2ymd 735112 = (2013, 9, 1)"
  by (simp add: ord2ymd_def DI_consts month_day_def DAYS_BEFORE_MONTH_def DAYS_IN_MONTH_def
      Let_def)

lemma ord_2013_09_15: "ord2ymd 735126 = (2013, 9, 15)"
  by (simp add: ord2ymd_def DI_consts month_day_def DAYS_BEFORE_MONTH_def DAYS_IN_MONTH_def
      Let_def)

lemma ord_3000_01_01: "ord2ymd 1095363 = (3000, 1, 1)"
  by (simp add: ord2ymd_def DI_consts month_day_def DAYS_BEFORE_MONTH_def DAYS_IN_MONTH_def
      Let_def)

lemma ord_3000_01_15: "ord2ymd 1095377 = (3000, 1, 15)"
  by (simp add: ord2ymd_def DI_consts month_day_def DAYS_BEFORE_MONTH_def DAYS_IN_MONTH_def
      Let_def)

text \<open>The month of 2013-09-15 10:00 and the month of 3000-01-15, as the resolver gives them.\<close>

lemma september_2013:
  "first_of (datetime_ymd_hms 2013 9 15 10 0 0 0) ''m'' = Inr (date_ymd 2013 9 1)"
  "end_of (datetime_ymd_hms 2013 9 15 10 0 0 0) ''m'' = Inr (date_ymd 2013 9 30)"
  "pd_in_bounds (date_ymd 2013 9 1)"
  "pd_in_bounds (date_ymd 2013 9 30)"
  "pd_in_bounds (datetime_ymd_hms 2013 9 15 10 0 0 0)"
  by (simp_all add: first_of_def end_of_def datetime_ymd_hms_def ymd_2013_09_15
      ord_2013_09_15 days_in_month_def DAYS_IN_MONTH_def pd_in_bounds_iff date_ymd_def
      ymd_2013_09_01 ymd_2013_09_30)

lemma january_3000:
  "first_of (date_ymd 3000 1 15) ''m'' = Inr (date_ymd 3000 1 1)"
  "end_of (date_ymd 3000 1 15) ''m'' = Inr (date_ymd 3000 1 31)"
  "first_of (date_ymd 3000 1 1) ''m'' = Inr (date_ymd 3000 1 1)"
  by (simp_all add: first_of_def end_of_def date_ymd_def ymd_3000_01_15 ymd_3000_01_01
      ord_3000_01_15 ord_3000_01_01 days_in_month_def DAYS_IN_MONTH_def)

lemma pd_date_range_year_3000:
  "pd_date_range (date_ymd 3000 1 1) t = Inl OutOfBoundsDatetime"
  by (simp add: pd_date_range_def to_timestamp_def timestamp_bounds dt_greater_def
      date_ymd_def ymd_3000_01_01)

lemma valid_year_3000:
  "valid_datetime (date_ymd 3000 1 1)" "valid_datetime (date_ymd 3000 1 15)"
  by (simp_all add: valid_datetime_def representable_def MAXORDINAL_def date_ymd_def
      ymd_3000_01_01 ymd_3000_01_15)

text \<open>
  C4, as the code has it: for every date \<open>d\<close> and frequency \<open>f\<close> for which the resolver
  returns \<open>first_of(d, f)\<close> and \<open>end_of(d, f)\<close> and both are bounds that \<open>pd.date_range\<close>
  accepts (from 1677-09-22 to 2262-04-11), \<open>date_range(d, f, full_range=True)\<close> returns
  the inclusive daily sequence from the first to the second: it is not empty, its first
  element is \<open>first_of(d, f)\<close>, its last element is midnight of \<open>end_of(d, f)\<close>, and it
  contains midnight of \<open>d\<close>'s day.
\<close>

theorem date_range_full_period:
  assumes "first_of d f = Inr s" and "end_of d f = Inr e"
    and "pd_in_bounds s" and "pd_in_bounds e"
  shows "\<exists>xs. date_range first_of end_of now (Some d) f True = Inr xs
           \<and> xs = midnights (ordinal s) (ordinal e) \<and> daily_consecutive xs
           \<and> xs \<noteq> [] \<and> hd xs = s \<and> last xs = normalize_dt e
           \<and> normalize_dt d \<in> set xs"
proof -
  have s: "tod s = 0" "ordinal s \<le> ordinal d"
    using first_of_bounds [OF assms(1)] by simp_all
  have e: "ordinal d \<le> ordinal e"
    using end_of_bounds [OF assms(2)] by simp
  have le: "ordinal s \<le> ordinal e"
    using s(2) e by simp
  have "date_range first_of end_of now (Some d) f True
      = Inr (midnights (ordinal s) (ordinal e))"
    using assms by (simp add: date_range_def pd_date_range_in_bounds)
  moreover have "hd (midnights (ordinal s) (ordinal e)) = s"
    using midnights_nonempty(2) [OF le] midnight_record [OF s(1)] by simp
  moreover have "last (midnights (ordinal s) (ordinal e)) = normalize_dt e"
    using midnights_nonempty(3) [OF le] by (simp add: normalize_dt_record)
  moreover have "normalize_dt d \<in> set (midnights (ordinal s) (ordinal e))"
    using s(2) e by (simp add: set_midnights normalize_dt_def)
  ultimately show ?thesis
    using midnights_nonempty(1) [OF le] by (simp add: daily_consecutive_midnights)
qed

text \<open>The theorem for the month of 2013-09-15 10:00, the spec's third scenario.\<close>

theorem date_range_full_period_witness:
  "first_of (datetime_ymd_hms 2013 9 15 10 0 0 0) ''m'' = Inr (date_ymd 2013 9 1)
   \<and> end_of (datetime_ymd_hms 2013 9 15 10 0 0 0) ''m'' = Inr (date_ymd 2013 9 30)
   \<and> pd_in_bounds (date_ymd 2013 9 1) \<and> pd_in_bounds (date_ymd 2013 9 30)
   \<and> (\<exists>xs. date_range first_of end_of (date_ymd 2013 9 5)
              (Some (datetime_ymd_hms 2013 9 15 10 0 0 0)) ''m'' True = Inr xs
         \<and> xs = midnights (ordinal (date_ymd 2013 9 1)) (ordinal (date_ymd 2013 9 30))
         \<and> daily_consecutive xs
         \<and> xs \<noteq> [] \<and> hd xs = date_ymd 2013 9 1
         \<and> last xs = normalize_dt (date_ymd 2013 9 30)
         \<and> normalize_dt (datetime_ymd_hms 2013 9 15 10 0 0 0) \<in> set xs)"
  using september_2013
    date_range_full_period [OF september_2013(1,2,3,4), of "date_ymd 2013 9 5"]
  by simp

text \<open>
  C4 as written, for every date, fails beyond pandas' timestamps: for 3000-01-15 the
  resolver returns the first and the last of January 3000, and line 77 raises
  \<open>OutOfBoundsDatetime\<close>.
\<close>

theorem date_range_full_period_out_of_bounds:
  "valid_datetime (date_ymd 3000 1 15)
   \<and> first_of (date_ymd 3000 1 15) ''m'' = Inr (date_ymd 3000 1 1)
   \<and> end_of (date_ymd 3000 1 15) ''m'' = Inr (date_ymd 3000 1 31)
   \<and> date_range first_of end_of (date_ymd 2013 9 5) (Some (date_ymd 3000 1 15)) ''m'' True
       = Inl OutOfBoundsDatetime"
  by (simp add: january_3000 valid_year_3000 date_range_def pd_date_range_year_3000)

text \<open>
  With \<open>full_range\<close> false the date itself is the second bound, so outside pandas'
  timestamps no range comes back, whatever the resolver returns.
\<close>

lemma date_range_end_out_of_bounds:
  assumes "\<not> pd_in_bounds d"
  shows "date_range resolve_first resolve_end now (Some d) f False \<noteq> Inr xs"
  using assms
  by (auto simp: date_range_def bind_err_def pd_date_range_iff split: sum.splits)

text \<open>
  C5, as the code has it: for every date \<open>d\<close> and frequency \<open>f\<close> for which the resolver
  returns \<open>first_of(d, f)\<close> and both it and \<open>d\<close> are bounds that \<open>pd.date_range\<close> accepts
  (from 1677-09-22 to 2262-04-11 23:47:16.854775), \<open>date_range(d, f,
  full_range=False)\<close> returns the inclusive daily sequence from \<open>first_of(d, f)\<close> to \<open>d\<close>:
  it is not empty, its first element is \<open>first_of(d, f)\<close> and its last element is
  midnight of \<open>d\<close>'s day.
\<close>

theorem date_range_period_to_date:
  assumes "first_of d f = Inr s" and "pd_in_bounds s" and "pd_in_bounds d"
  shows "\<exists>xs. date_range first_of end_of now (Some d) f False = Inr xs
           \<and> xs = midnights (ordinal s) (ordinal d) \<and> daily_consecutive xs
           \<and> xs \<noteq> [] \<and> hd xs = s \<and> last xs = normalize_dt d"
proof -
  have s: "tod s = 0" "ordinal s \<le> ordinal d"
    using first_of_bounds [OF assms(1)] by simp_all
  have "date_range first_of end_of now (Some d) f False
      = Inr (midnights (ordinal s) (ordinal d))"
    using assms by (simp add: date_range_def pd_date_range_in_bounds)
  moreover have "hd (midnights (ordinal s) (ordinal d)) = s"
    using midnights_nonempty(2) [OF s(2)] midnight_record [OF s(1)] by simp
  moreover have "last (midnights (ordinal s) (ordinal d)) = normalize_dt d"
    using midnights_nonempty(3) [OF s(2)] by (simp add: normalize_dt_record)
  ultimately show ?thesis
    using midnights_nonempty(1) [OF s(2)] by (simp add: daily_consecutive_midnights)
qed

text \<open>The theorem for the month of 2013-09-15 10:00, the spec's fourth scenario.\<close>

theorem date_range_period_to_date_witness:
  "first_of (datetime_ymd_hms 2013 9 15 10 0 0 0) ''m'' = Inr (date_ymd 2013 9 1)
   \<and> pd_in_bounds (date_ymd 2013 9 1)
   \<and> pd_in_bounds (datetime_ymd_hms 2013 9 15 10 0 0 0)
   \<and> (\<exists>xs. date_range first_of end_of (date_ymd 2013 9 5)
              (Some (datetime_ymd_hms 2013 9 15 10 0 0 0)) ''m'' False = Inr xs
         \<and> xs = midnights (ordinal (date_ymd 2013 9 1))
                  (ordinal (datetime_ymd_hms 2013 9 15 10 0 0 0))
         \<and> daily_consecutive xs
         \<and> xs \<noteq> [] \<and> hd xs = date_ymd 2013 9 1
         \<and> last xs = normalize_dt (datetime_ymd_hms 2013 9 15 10 0 0 0))"
  using september_2013
    date_range_period_to_date [OF september_2013(1,3,5), of "date_ymd 2013 9 5"]
  by simp

text \<open>
  C5 as written, for every date, fails beyond pandas' timestamps: for 3000-01-15 the
  resolver returns the first of January 3000, and line 77 raises
  \<open>OutOfBoundsDatetime\<close>.
\<close>

theorem date_range_period_to_date_out_of_bounds:
  "valid_datetime (date_ymd 3000 1 15)
   \<and> first_of (date_ymd 3000 1 15) ''m'' = Inr (date_ymd 3000 1 1)
   \<and> date_range first_of end_of (date_ymd 2013 9 5) (Some (date_ymd 3000 1 15)) ''m'' False
       = Inl OutOfBoundsDatetime"
  by (simp add: january_3000 valid_year_3000 date_range_def pd_date_range_year_3000)

text \<open>
  C7: for every date \<open>d\<close> and frequency \<open>f\<close> that the resolver accepts, returning
  \<open>first_of(d, f)\<close> and \<open>end_of(d, f)\<close>, the bounds that \<open>date_range\<close> passes on are in
  order, \<open>first_of(d, f) <= end_of(d, f)\<close> and \<open>first_of(d, f) <= d\<close>. So, for both
  values of \<open>full_range\<close>, a range that \<open>date_range\<close> returns is never empty and always
  ascends; and it does return one when the bounds are ones that \<open>pd.date_range\<close>
  accepts.
\<close>

theorem date_range_bounds_ordered:
  assumes "first_of d f = Inr s" and "end_of d f = Inr e"
  shows "dt_le s e \<and> dt_le s d
           \<and> (\<forall>full_range xs.
                 date_range first_of end_of now (Some d) f full_range = Inr xs
                 \<longrightarrow> xs \<noteq> [] \<and> sorted_wrt (\<lambda>x y. dt_greater y x) xs)
           \<and> (pd_in_bounds s \<and> pd_in_bounds e \<and> pd_in_bounds d
                \<longrightarrow> (\<forall>full_range. \<exists>xs.
                       date_range first_of end_of now (Some d) f full_range = Inr xs))"
proof -
  have s: "tod s = 0" "ordinal s \<le> ordinal d"
    using first_of_bounds [OF assms(1)] by simp_all
  have e: "tod e = 0" "ordinal d \<le> ordinal e"
    using end_of_bounds [OF assms(2)] by simp_all
  have le: "ordinal s \<le> ordinal e"
    using s(2) e(2) by simp
  have "dt_le s e"
    using le s(1) e(1) by (auto simp: dt_le_def dt_greater_def)
  moreover have "dt_le s d"
    using s by (auto simp: dt_le_def dt_greater_def)
  moreover have "xs \<noteq> [] \<and> sorted_wrt (\<lambda>x y. dt_greater y x) xs"
    if "date_range first_of end_of now (Some d) f full_range = Inr xs" for full_range xs
  proof (cases full_range)
    case True
    with that assms have "xs = midnights (ordinal s) (ordinal e)"
      by (simp add: date_range_def pd_date_range_iff)
    then show ?thesis
      using midnights_nonempty(1) [OF le] by (simp add: strictly_ascending_midnights)
  next
    case False
    with that assms have "xs = midnights (ordinal s) (ordinal d)"
      by (simp add: date_range_def pd_date_range_iff)
    then show ?thesis
      using midnights_nonempty(1) [OF s(2)] by (simp add: strictly_ascending_midnights)
  qed
  moreover have "\<exists>xs. date_range first_of end_of now (Some d) f full_range = Inr xs"
    if "pd_in_bounds s \<and> pd_in_bounds e \<and> pd_in_bounds d" for full_range
    using that assms
    by (cases full_range) (simp_all add: date_range_def pd_date_range_in_bounds)
  ultimately show ?thesis
    by blast
qed

text \<open>The theorem for the month of 2013-09-15 10:00.\<close>

theorem date_range_bounds_ordered_witness:
  "first_of (datetime_ymd_hms 2013 9 15 10 0 0 0) ''m'' = Inr (date_ymd 2013 9 1)
   \<and> end_of (datetime_ymd_hms 2013 9 15 10 0 0 0) ''m'' = Inr (date_ymd 2013 9 30)
   \<and> dt_le (date_ymd 2013 9 1) (date_ymd 2013 9 30)
   \<and> dt_le (date_ymd 2013 9 1) (datetime_ymd_hms 2013 9 15 10 0 0 0)
   \<and> (\<exists>xs. date_range first_of end_of (date_ymd 2013 9 5)
              (Some (datetime_ymd_hms 2013 9 15 10 0 0 0)) ''m'' True = Inr xs
         \<and> xs \<noteq> [] \<and> sorted_wrt (\<lambda>x y. dt_greater y x) xs)
   \<and> (\<exists>xs. date_range first_of end_of (date_ymd 2013 9 5)
              (Some (datetime_ymd_hms 2013 9 15 10 0 0 0)) ''m'' False = Inr xs
         \<and> xs \<noteq> [] \<and> sorted_wrt (\<lambda>x y. dt_greater y x) xs)"
  using september_2013
    date_range_bounds_ordered [OF september_2013(1,2), of "date_ymd 2013 9 5"]
  by metis

text \<open>
  C9, as the code has it: when \<open>d\<close> is the first day of its period, that is when the
  resolver's \<open>first_of(d, f)\<close> falls on \<open>d\<close>'s own day (in particular when it is \<open>d\<close>
  itself), and both are bounds that \<open>pd.date_range\<close> accepts (from 1677-09-22 to
  2262-04-11 23:47:16.854775), \<open>date_range(d, f, full_range=False)\<close> is the single date
  \<open>d\<close>, at midnight. This holds for any resolver and any frequency code.
\<close>

theorem date_range_at_period_start:
  assumes "resolve_first d f = Inr s" and "normalize_dt s = normalize_dt d"
    and "pd_in_bounds s" and "pd_in_bounds d"
  shows "date_range resolve_first resolve_end now (Some d) f False = Inr [normalize_dt d]"
proof -
  from assms(2) have "ordinal s = ordinal d"
    by (cases s, cases d) (simp add: normalize_dt_def)
  then show ?thesis
    using assms(1,3,4)
    by (simp add: date_range_def pd_date_range_in_bounds midnights_def normalize_dt_record)
qed

text \<open>The theorem on the first of September 2013, with the month as period.\<close>

theorem date_range_at_period_start_witness:
  "first_of (date_ymd 2013 9 1) ''m'' = Inr (date_ymd 2013 9 1)
   \<and> normalize_dt (date_ymd 2013 9 1) = normalize_dt (date_ymd 2013 9 1)
   \<and> pd_in_bounds (date_ymd 2013 9 1)
   \<and> date_range first_of end_of (date_ymd 2013 9 5) (Some (date_ymd 2013 9 1)) ''m'' False
       = Inr [normalize_dt (date_ymd 2013 9 1)]"
proof -
  have a: "first_of (date_ymd 2013 9 1) ''m'' = Inr (date_ymd 2013 9 1)"
    by (simp add: first_of_def date_ymd_def ymd_2013_09_01 ord_2013_09_01)
  have b: "normalize_dt (date_ymd 2013 9 1) = normalize_dt (date_ymd 2013 9 1)"
    by simp
  have c: "pd_in_bounds (date_ymd 2013 9 1)"
    by (rule september_2013(3))
  show ?thesis
    using a b c date_range_at_period_start
      [where resolve_first = first_of and resolve_end = end_of and d = "date_ymd 2013 9 1"
         and f = "''m''" and s = "date_ymd 2013 9 1" and now = "date_ymd 2013 9 5"]
    by simp
qed

text \<open>
  C9 as written, for every such date, fails beyond pandas' timestamps: 3000-01-01 is the
  first day of its month, and line 77 raises \<open>OutOfBoundsDatetime\<close>.
\<close>

theorem date_range_at_period_start_out_of_bounds:
  "valid_datetime (date_ymd 3000 1 1)
   \<and> first_of (date_ymd 3000 1 1) ''m'' = Inr (date_ymd 3000 1 1)
   \<and> date_range first_of end_of (date_ymd 2013 9 5) (Some (date_ymd 3000 1 1)) ''m'' False
       = Inl OutOfBoundsDatetime"
  by (simp add: january_3000 valid_year_3000 date_range_def pd_date_range_year_3000)

end
